theory Spec2Isabelle
  imports Complex_Main "HOL-Library.Log_Nat"
begin

section \<open>JavaScript numbers and the values that reach the numeric coercions\<close>

text \<open>
  A JavaScript Number is an IEEE double: the not-a-number value, the two infinities
  and the finite values. A finite value is given by the real it denotes (the two
  zeros are not told apart). An arithmetic result is rounded to the nearest double.
\<close>

datatype jsnum = NaN | NegInf | Fin real | PosInf

subsection \<open>Rounding to the nearest double\<close>

text \<open>\<open>pow2 k\<close> is 2 to the power \<open>k\<close>, for an integer \<open>k\<close>.\<close>

definition pow2 :: "int \<Rightarrow> real" where
  "pow2 k = (if 0 \<le> k then 2 ^ nat k else 1 / 2 ^ nat (- k))"

text \<open>
  The binary exponent of a real \<open>x\<close> other than 0: the integer \<open>e\<close> with
  \<open>2\<^sup>e \<le> \<bar>x\<bar> < 2\<^sup>e\<^sup>+\<^sup>1\<close>, computed from the length in bits of the integer part
  of \<open>\<bar>x\<bar>\<close>, or of its reciprocal when \<open>\<bar>x\<bar> < 1\<close>.
\<close>

definition binary_exponent :: "real \<Rightarrow> int" where
  "binary_exponent x =
     (if 1 \<le> \<bar>x\<bar> then bitlen \<lfloor>\<bar>x\<bar>\<rfloor> - 1 else - bitlen (\<lceil>1 / \<bar>x\<bar>\<rceil> - 1))"

text \<open>The nearest integer, the even one of the two when \<open>y\<close> is half way.\<close>

definition round_half_even :: "real \<Rightarrow> int" where
  "round_half_even y =
     (let f = \<lfloor>y\<rfloor>
      in if y - of_int f < 1 / 2 then f
         else if 1 / 2 < y - of_int f then f + 1
         else if even f then f else f + 1)"

text \<open>
  The double nearest to a real. Doubles have 53 significant bits, so around \<open>x\<close>
  they are the multiples of \<open>2\<close> to the power \<open>binary_exponent x - 52\<close>; the
  spacing is never below \<open>2\<^sup>-\<^sup>1\<^sup>0\<^sup>7\<^sup>4\<close>; a tie goes to the even multiple; a result
  of magnitude \<open>2\<^sup>1\<^sup>0\<^sup>2\<^sup>4\<close> or more is an infinity.
\<close>

definition round_double :: "real \<Rightarrow> jsnum" where
  "round_double x =
     (if x = 0 then Fin 0
      else (let u = pow2 (max (binary_exponent x - 52) (- 1074));
                r = of_int (round_half_even (x / u)) * u
            in if 2 ^ 1024 \<le> \<bar>r\<bar> then (if 0 < x then PosInf else NegInf) else Fin r))"

subsection \<open>Operators\<close>

text \<open>The binary minus of the language.\<close>

fun js_sub :: "jsnum \<Rightarrow> jsnum \<Rightarrow> jsnum" where
  "js_sub NaN b = NaN"
| "js_sub a NaN = NaN"
| "js_sub (Fin a) (Fin b) = round_double (a - b)"
| "js_sub (Fin a) PosInf = NegInf"
| "js_sub (Fin a) NegInf = PosInf"
| "js_sub PosInf PosInf = NaN"
| "js_sub PosInf b = PosInf"
| "js_sub NegInf NegInf = NaN"
| "js_sub NegInf b = NegInf"

text \<open>The relational operators: every comparison with NaN is false.\<close>

fun js_lt :: "jsnum \<Rightarrow> jsnum \<Rightarrow> bool" where
  "js_lt NaN b = False"
| "js_lt a NaN = False"
| "js_lt NegInf NegInf = False"
| "js_lt NegInf b = True"
| "js_lt a NegInf = False"
| "js_lt (Fin a) (Fin b) = (a < b)"
| "js_lt (Fin a) PosInf = True"
| "js_lt PosInf b = False"

definition js_ge :: "jsnum \<Rightarrow> jsnum \<Rightarrow> bool" where
  "js_ge a b = (a \<noteq> NaN \<and> b \<noteq> NaN \<and> \<not> js_lt a b)"

text \<open>\<^verbatim>\<open>Math.max\<close> and \<^verbatim>\<open>Math.min\<close> of two arguments.\<close>

definition Math_max :: "jsnum \<Rightarrow> jsnum \<Rightarrow> jsnum" where
  "Math_max a b = (if a = NaN \<or> b = NaN then NaN else if js_lt a b then b else a)"

definition Math_min :: "jsnum \<Rightarrow> jsnum \<Rightarrow> jsnum" where
  "Math_min a b = (if a = NaN \<or> b = NaN then NaN else if js_lt b a then b else a)"

subsection \<open>Values and coercions\<close>

text \<open>
  The values of the language, as far as the coercions of \<^verbatim>\<open>wait\<close> and of the
  properties of \<^verbatim>\<open>options\<close> tell them apart: \<^verbatim>\<open>undefined\<close> (also an
  omitted argument or a missing property), \<^verbatim>\<open>null\<close>, the booleans, the
  numbers, the strings, the symbols, the BigInts and the objects. The conversion of
  an object to a primitive runs its \<^verbatim>\<open>valueOf\<close> and \<^verbatim>\<open>toString\<close>:
  \<open>Object p\<close> is an object for which that conversion gives the value \<open>p\<close>,
  \<open>Throwing x\<close> one for which it throws \<open>x\<close>.
\<close>

datatype jsval =
  Undefined | Null | Boolean bool | Number jsnum | String string | Symbol | BigInt int
  | Object jsval | Throwing jsval

text \<open>What construction can throw: a TypeError with its message, or a value thrown
  by the conversion of an object.\<close>

datatype error = TypeError string | Thrown jsval

text \<open>
  The unary plus \<^verbatim>\<open>+v\<close>. It throws a TypeError on a symbol and on a BigInt;
  an object is converted to a primitive first, which may throw, and a conversion
  that gives no primitive is a TypeError. The empty string is 0; \<open>sn\<close> is the
  language's reading of the other strings as numbers (StringToNumber).
\<close>

fun ToNumber :: "(string \<Rightarrow> jsnum) \<Rightarrow> jsval \<Rightarrow> error + jsnum" where
  "ToNumber sn Undefined = Inr NaN"
| "ToNumber sn Null = Inr (Fin 0)"
| "ToNumber sn (Boolean b) = Inr (if b then Fin 1 else Fin 0)"
| "ToNumber sn (Number n) = Inr n"
| "ToNumber sn (String s) = Inr (if s = [] then Fin 0 else sn s)"
| "ToNumber sn Symbol = Inl (TypeError ''Cannot convert a Symbol value to a number'')"
| "ToNumber sn (BigInt n) = Inl (TypeError ''Cannot convert a BigInt value to a number'')"
| "ToNumber sn (Throwing x) = Inl (Thrown x)"
| "ToNumber sn (Object (Object p)) = Inl (TypeError ''Cannot convert object to primitive value'')"
| "ToNumber sn (Object (Throwing x)) = Inl (TypeError ''Cannot convert object to primitive value'')"
| "ToNumber sn (Object p) = ToNumber sn p"

text \<open>Truthiness, as tested by \<^verbatim>\<open>!v\<close>, \<^verbatim>\<open>!!v\<close> and \<^verbatim>\<open>v || d\<close>.\<close>

fun ToBoolean :: "jsval \<Rightarrow> bool" where
  "ToBoolean Undefined = False"
| "ToBoolean Null = False"
| "ToBoolean (Boolean b) = b"
| "ToBoolean (Number n) = (n \<noteq> NaN \<and> n \<noteq> Fin 0)"
| "ToBoolean (String s) = (s \<noteq> [])"
| "ToBoolean Symbol = True"
| "ToBoolean (BigInt n) = (n \<noteq> 0)"
| "ToBoolean (Object p) = True"
| "ToBoolean (Throwing x) = True"

text \<open>
  \<^verbatim>\<open>+v || 0\<close>: the unary plus may throw; otherwise the coerced number, or 0
  when that number is NaN or zero.
\<close>

definition num_or_zero :: "(string \<Rightarrow> jsnum) \<Rightarrow> jsval \<Rightarrow> error + jsnum" where
  "num_or_zero sn v =
     (case ToNumber sn v of
        Inl e \<Rightarrow> Inl e
      | Inr n \<Rightarrow> Inr (if ToBoolean (Number n) then n else Fin 0))"

text \<open>
  The third argument of \<^verbatim>\<open>debounce\<close>: an object, seen as the map from its
  property names to their values, or anything else.
\<close>

datatype optarg = NotObject | Options "string \<rightharpoonup> jsval"

text \<open>
  Modelled from the spec: \<^verbatim>\<open>isObject\<close> of \<^verbatim>\<open>./isObject.js\<close>, which is
  not among the sources. The policy options are read only when the argument is an
  object.
\<close>

fun isObject :: "optarg \<Rightarrow> bool" where
  "isObject NotObject = False"
| "isObject (Options m) = True"

text \<open>\<^verbatim>\<open>name in options\<close> and \<^verbatim>\<open>options.name\<close>.\<close>

fun has_prop :: "string \<Rightarrow> optarg \<Rightarrow> bool" where
  "has_prop k NotObject = False"
| "has_prop k (Options m) = (m k \<noteq> None)"

fun get_prop :: "optarg \<Rightarrow> string \<Rightarrow> jsval" where
  "get_prop NotObject k = Undefined"
| "get_prop (Options m) k = (case m k of None \<Rightarrow> Undefined | Some v \<Rightarrow> v)"

section \<open>The state of one debounced function\<close>

text \<open>
  A timer waiting in the host: one set by \<^verbatim>\<open>setTimeout\<close> with its delay, or
  one set by \<^verbatim>\<open>requestAnimationFrame\<close>. The callback is always
  \<^verbatim>\<open>timerExpired\<close>.
\<close>

datatype timer = Timeout jsnum | Frame

text \<open>
  The closure variables of \<^verbatim>\<open>debounce\<close>, under their names. The arguments,
  the receiver, the results and the thrown values of the target are of any type;
  \<open>None\<close> stands for \<^verbatim>\<open>undefined\<close>. The target is a function of the
  receiver and the argument list that returns a value (\<open>Inr\<close>) or throws
  (\<open>Inl\<close>); the calls it makes on its own debounced function while it runs are
  given apart, where they matter. \<open>scheduled\<close> and \<open>nextHandle\<close> are the host's timers,
  \<open>invoked\<close> is the history of the calls of the target: time, receiver and
  arguments of each.
\<close>

record ('v, 'e) closure =
  func :: "'v option \<Rightarrow> 'v list \<Rightarrow> 'e + 'v option"
  wait :: jsnum
  maxWait :: "jsnum option"
  leading :: bool
  maxing :: bool
  trailing :: bool
  useRAF :: bool
  lastArgs :: "'v list option"
  lastThis :: "'v option"
  result :: "'v option"
  timerId :: "nat option"
  lastCallTime :: "int option"
  lastInvokeTime :: int
  scheduled :: "(nat \<times> timer) list"
  nextHandle :: nat
  invoked :: "(int \<times> 'v option \<times> 'v list) list"

text \<open>What a call gives back: the thrown value or the returned one, and the state.\<close>

type_synonym ('v, 'e) outcome = "('e + 'v option) \<times> ('v, 'e) closure"

subsection \<open>The host's scheduling primitives\<close>

text \<open>
  Modelled from the spec: the delay-based and the frame-based primitive of the host
  (section 6). Scheduling returns a fresh handle and records the timer; cancelling
  removes the timer with that handle and does nothing for an unknown handle or for
  \<^verbatim>\<open>undefined\<close>. \<open>scheduled\<close> lists the timers that were handed to the
  host and not cancelled, in the order of the requests; when the host runs the
  callback of one of them, that is a call of \<open>timerExpired\<close> below.
\<close>

definition setTimeout :: "('v, 'e) closure \<Rightarrow> jsnum \<Rightarrow> nat \<times> ('v, 'e) closure" where
  "setTimeout s d =
     (nextHandle s,
      s\<lparr>scheduled := scheduled s @ [(nextHandle s, Timeout d)],
        nextHandle := Suc (nextHandle s)\<rparr>)"

definition requestAnimationFrame :: "('v, 'e) closure \<Rightarrow> nat \<times> ('v, 'e) closure" where
  "requestAnimationFrame s =
     (nextHandle s,
      s\<lparr>scheduled := scheduled s @ [(nextHandle s, Frame)],
        nextHandle := Suc (nextHandle s)\<rparr>)"

definition clearTimeout :: "('v, 'e) closure \<Rightarrow> nat \<Rightarrow> ('v, 'e) closure" where
  "clearTimeout s h = s\<lparr>scheduled := filter (\<lambda>p. fst p \<noteq> h) (scheduled s)\<rparr>"

definition cancelAnimationFrame :: "('v, 'e) closure \<Rightarrow> nat option \<Rightarrow> ('v, 'e) closure" where
  "cancelAnimationFrame s ho =
     (case ho of None \<Rightarrow> s
      | Some h \<Rightarrow> s\<lparr>scheduled := filter (\<lambda>p. fst p \<noteq> h) (scheduled s)\<rparr>)"

text \<open>
  \<^verbatim>\<open>Date.now()\<close> is a whole number of milliseconds. The readings of the clock
  and their differences are far below \<open>2\<^sup>5\<^sup>3\<close> in magnitude, where a double holds
  every whole number: the difference of two readings is taken as the whole number
  it is, and \<open>num_of_time\<close> reads a whole number of milliseconds as a Number.
\<close>

definition num_of_time :: "int \<Rightarrow> jsnum" where
  "num_of_time t = Fin (of_int t)"

text \<open>\<^verbatim>\<open>time - lastCallTime\<close>, which is NaN while \<^verbatim>\<open>lastCallTime\<close> is undefined.\<close>

definition timeSinceLastCall :: "('v, 'e) closure \<Rightarrow> int \<Rightarrow> jsnum" where
  "timeSinceLastCall s time =
     (case lastCallTime s of None \<Rightarrow> NaN | Some c \<Rightarrow> num_of_time (time - c))"

text \<open>\<^verbatim>\<open>time - lastInvokeTime\<close>.\<close>

definition timeSinceLastInvoke :: "('v, 'e) closure \<Rightarrow> int \<Rightarrow> jsnum" where
  "timeSinceLastInvoke s time = num_of_time (time - lastInvokeTime s)"

text \<open>\<^verbatim>\<open>maxWait\<close> read as a number: NaN while it is undefined.\<close>

definition maxWait_num :: "('v, 'e) closure \<Rightarrow> jsnum" where
  "maxWait_num s = (case maxWait s of None \<Rightarrow> NaN | Some m \<Rightarrow> m)"

section \<open>The inner functions of debounce\<close>

definition invokeFunc :: "('v, 'e) closure \<Rightarrow> int \<Rightarrow> ('v, 'e) outcome" where
  "invokeFunc s time =
     (let args = (case lastArgs s of None \<Rightarrow> [] | Some a \<Rightarrow> a);
          thisArg = lastThis s;
          s1 = s\<lparr>lastArgs := None, lastThis := None, lastInvokeTime := time,
                 invoked := invoked s @ [(time, thisArg, args)]\<rparr>
      in case func s1 thisArg args of
           Inl e \<Rightarrow> (Inl e, s1)
         | Inr r \<Rightarrow> (Inr r, s1\<lparr>result := r\<rparr>))"

definition startTimer :: "('v, 'e) closure \<Rightarrow> jsnum \<Rightarrow> nat \<times> ('v, 'e) closure" where
  "startTimer s d =
     (if useRAF s then requestAnimationFrame (cancelAnimationFrame s (timerId s))
      else setTimeout s d)"

definition cancelTimer :: "('v, 'e) closure \<Rightarrow> nat \<Rightarrow> ('v, 'e) closure" where
  "cancelTimer s h = (if useRAF s then cancelAnimationFrame s (Some h) else clearTimeout s h)"

definition leadingEdge :: "('v, 'e) closure \<Rightarrow> int \<Rightarrow> ('v, 'e) outcome" where
  "leadingEdge s time =
     (let s1 = s\<lparr>lastInvokeTime := time\<rparr>;
          (h, s2) = startTimer s1 (wait s1);
          s3 = s2\<lparr>timerId := Some h\<rparr>
      in if leading s3 then invokeFunc s3 time else (Inr (result s3), s3))"

definition remainingWait :: "('v, 'e) closure \<Rightarrow> int \<Rightarrow> jsnum" where
  "remainingWait s time =
     (let timeWaiting = js_sub (wait s) (timeSinceLastCall s time)
      in if maxing s
         then Math_min timeWaiting (js_sub (maxWait_num s) (timeSinceLastInvoke s time))
         else timeWaiting)"

definition shouldInvoke :: "('v, 'e) closure \<Rightarrow> int \<Rightarrow> bool" where
  "shouldInvoke s time =
     (lastCallTime s = None \<or>
      js_ge (timeSinceLastCall s time) (wait s) \<or>
      js_lt (timeSinceLastCall s time) (Fin 0) \<or>
      (maxing s \<and> js_ge (timeSinceLastInvoke s time) (maxWait_num s)))"

definition trailingEdge :: "('v, 'e) closure \<Rightarrow> int \<Rightarrow> ('v, 'e) outcome" where
  "trailingEdge s time =
     (let s1 = s\<lparr>timerId := None\<rparr>
      in if trailing s1 \<and> lastArgs s1 \<noteq> None then invokeFunc s1 time
         else (Inr (result s1), s1\<lparr>lastArgs := None, lastThis := None\<rparr>))"

text \<open>The callback of every timer; \<open>time\<close> is what \<^verbatim>\<open>Date.now()\<close> reads then.\<close>

definition timerExpired :: "('v, 'e) closure \<Rightarrow> int \<Rightarrow> ('v, 'e) outcome" where
  "timerExpired s time =
     (if shouldInvoke s time then trailingEdge s time
      else (let (h, s1) = startTimer s (remainingWait s time)
            in (Inr None, s1\<lparr>timerId := Some h\<rparr>)))"

definition cancel :: "('v, 'e) closure \<Rightarrow> ('v, 'e) closure" where
  "cancel s =
     (let s1 = (case timerId s of None \<Rightarrow> s | Some h \<Rightarrow> cancelTimer s h)
      in s1\<lparr>lastInvokeTime := 0, lastArgs := None, lastCallTime := None,
            lastThis := None, timerId := None\<rparr>)"

definition flush :: "('v, 'e) closure \<Rightarrow> int \<Rightarrow> ('v, 'e) outcome" where
  "flush s now =
     (case timerId s of None \<Rightarrow> (Inr (result s), s) | Some h \<Rightarrow> trailingEdge s now)"

definition pending :: "('v, 'e) closure \<Rightarrow> bool" where
  "pending s = (timerId s \<noteq> None)"

text \<open>
  The debounced function itself: \<open>now\<close> is \<^verbatim>\<open>Date.now()\<close> at the call,
  \<open>this\<close> the receiver and \<open>args\<close> the arguments.
\<close>

definition debounced :: "('v, 'e) closure \<Rightarrow> int \<Rightarrow> 'v option \<Rightarrow> 'v list \<Rightarrow> ('v, 'e) outcome" where
  "debounced s now this args =
     (let time = now;
          isInvoking = shouldInvoke s time;
          s1 = s\<lparr>lastArgs := Some args, lastThis := this, lastCallTime := Some time\<rparr>
      in if isInvoking
         then (if timerId s1 = None then leadingEdge s1 time
               else if maxing s1
               then (let (h, s2) = startTimer s1 (wait s1)
                     in invokeFunc (s2\<lparr>timerId := Some h\<rparr>) time)
               else (Inr (result s1), s1))
         else if timerId s1 = None
         then (let (h, s2) = startTimer s1 (wait s1)
               in (Inr (result s2), s2\<lparr>timerId := Some h\<rparr>))
         else (Inr (result s1), s1))"

section \<open>Construction\<close>

text \<open>
  \<^verbatim>\<open>debounce(func, wait, options)\<close>. \<open>raf\<close> says whether
  \<^verbatim>\<open>typeof root.requestAnimationFrame === 'function'\<close>, \<open>sn\<close> is the
  language's reading of strings as numbers; the target is \<open>None\<close> when
  \<^verbatim>\<open>func\<close> is not a function. The statements run in the order of the source:
  the mode, the test of the target, the coercion of \<^verbatim>\<open>wait\<close>, then the
  options. The result is the error thrown, or the state in which the new debounced
  function starts, with no timer of its own in the host.
\<close>

definition debounce ::
  "bool \<Rightarrow> (string \<Rightarrow> jsnum) \<Rightarrow> ('v option \<Rightarrow> 'v list \<Rightarrow> 'e + 'v option) option
     \<Rightarrow> jsval \<Rightarrow> optarg \<Rightarrow> error + ('v, 'e) closure" where
  "debounce raf sn fo wait0 options =
     (let useRAF0 = (\<not> ToBoolean wait0 \<and> wait0 \<noteq> Number (Fin 0) \<and> raf)
      in case fo of
           None \<Rightarrow> Inl (TypeError ''Expected a function'')
         | Some f \<Rightarrow>
             (case num_or_zero sn wait0 of
                Inl e \<Rightarrow> Inl e
              | Inr wait1 \<Rightarrow>
                  (let obj = isObject options;
                       leading1 = (if obj then ToBoolean (get_prop options ''leading'')
                                   else False);
                       maxing1 = (if obj then has_prop ''maxWait'' options else False)
                   in case (if maxing1
                            then (case num_or_zero sn (get_prop options ''maxWait'') of
                                    Inl e \<Rightarrow> Inl e
                                  | Inr m \<Rightarrow> Inr (Some (Math_max m wait1)))
                            else Inr None) of
                        Inl e \<Rightarrow> Inl e
                      | Inr maxWait1 \<Rightarrow>
                          (let trailing1 = (if obj \<and> has_prop ''trailing'' options
                                            then ToBoolean (get_prop options ''trailing'')
                                            else True)
                           in Inr \<lparr>func = f, wait = wait1, maxWait = maxWait1,
                                   leading = leading1, maxing = maxing1,
                                   trailing = trailing1, useRAF = useRAF0,
                                   lastArgs = None, lastThis = None, result = None,
                                   timerId = None, lastCallTime = None,
                                   lastInvokeTime = 0, scheduled = [],
                                   nextHandle = 0, invoked = []\<rparr>))))"

section \<open>A target that calls back into its own debounced function\<close>






section \<open>Runs of the instance\<close>

text \<open>
  The host runs the timer callback whenever a timer of the instance is due: a run of
  callbacks at the successive readings of the clock \<open>ts\<close>.
\<close>

fun timerExpiries :: "('v, 'e) closure \<Rightarrow> int list \<Rightarrow> ('v, 'e) closure" where
  "timerExpiries s [] = s"
| "timerExpiries s (t # ts) = timerExpiries (snd (timerExpired s t)) ts"

text \<open>
  The life of an instance: \<open>evolves s s'\<close> when \<open>s'\<close> comes from \<open>s\<close> by
  calls of the debounced function, timer callbacks, \<^verbatim>\<open>flush\<close> and
  \<^verbatim>\<open>cancel\<close>, in any order and at any readings of the clock.
\<close>

inductive evolves :: "('v, 'e) closure \<Rightarrow> ('v, 'e) closure \<Rightarrow> bool" where
  same: "evolves s s"
| triggered: "evolves s s' \<Longrightarrow> evolves s (snd (debounced s' now this args))"
| expired: "evolves s s' \<Longrightarrow> evolves s (snd (timerExpired s' time))"
| flushed: "evolves s s' \<Longrightarrow> evolves s (snd (flush s' now))"
| cancelled: "evolves s s' \<Longrightarrow> evolves s (cancel s')"

text \<open>The state right after an execution at time \<open>t\<close> has begun.\<close>

definition cleared_at :: "('v, 'e) closure \<Rightarrow> int \<Rightarrow> bool" where
  "cleared_at s t = (lastArgs s = None \<and> lastThis s = None \<and> lastInvokeTime s = t)"

text \<open>What \<^verbatim>\<open>debounce\<close> fixes when it builds the instance.\<close>

definition policy ::
  "('v, 'e) closure \<Rightarrow> jsnum \<times> jsnum option \<times> bool \<times> bool \<times> bool \<times> bool" where
  "policy s = (wait s, maxWait s, leading s, maxing s, trailing s, useRAF s)"

subsection \<open>Concrete instances\<close>

text \<open>A target that returns the sum of its arguments, and one that always throws.\<close>

definition sum_target :: "nat option \<Rightarrow> nat list \<Rightarrow> string + nat option" where
  "sum_target this args = Inr (Some (sum_list args))"

definition failing_target :: "nat option \<Rightarrow> nat list \<Rightarrow> string + nat option" where
  "failing_target this args = Inl ''boom''"

text \<open>A reading of strings as numbers that knows the numeral \<^verbatim>\<open>"5"\<close> only.\<close>

definition five_only :: "string \<Rightarrow> jsnum" where
  "five_only s = (if s = ''5'' then Fin 5 else NaN)"

text \<open>\<^verbatim>\<open>debounce(sum, 100)\<close>, with no \<^verbatim>\<open>requestAnimationFrame\<close> in the host.\<close>

definition plain_100 :: "(nat, string) closure" where
  "plain_100 =
     projr (debounce False five_only (Some sum_target) (Number (Fin 100)) NotObject)"

text \<open>\<^verbatim>\<open>debounce(sum, 100, {leading: true})\<close>.\<close>

definition leading_100 :: "(nat, string) closure" where
  "leading_100 =
     projr (debounce False five_only (Some sum_target) (Number (Fin 100))
       (Options [''leading'' \<mapsto> Boolean True]))"

text \<open>\<^verbatim>\<open>debounce(sum, 100, {maxWait: 150})\<close>.\<close>

definition maxing_100_150 :: "(nat, string) closure" where
  "maxing_100_150 =
     projr (debounce False five_only (Some sum_target) (Number (Fin 100))
       (Options [''maxWait'' \<mapsto> Number (Fin 150)]))"

text \<open>\<^verbatim>\<open>debounce(fail, 100)\<close>, whose target throws.\<close>

definition failing_100 :: "(nat, string) closure" where
  "failing_100 =
     projr (debounce False five_only (Some failing_target) (Number (Fin 100)) NotObject)"

text \<open>\<^verbatim>\<open>debounce(sum, 100, {trailing: false})\<close>.\<close>

definition no_trailing_100 :: "(nat, string) closure" where
  "no_trailing_100 =
     projr (debounce False five_only (Some sum_target) (Number (Fin 100))
       (Options [''trailing'' \<mapsto> Boolean False]))"

text \<open>
  \<^verbatim>\<open>debounce(sum, 100, {leading: true})\<close> after a call with the argument 1 at
  time 0 and a \<^verbatim>\<open>flush\<close> at time 10.
\<close>

definition leading_100_flushed :: "(nat, string) closure" where
  "leading_100_flushed = snd (flush (snd (debounced leading_100 0 None [1])) 10)"

text \<open>\<^verbatim>\<open>debounce(sum, 1e17)\<close>, after a call with the argument 1 at time 0.\<close>

definition long_wait_called :: "(nat, string) closure" where
  "long_wait_called =
     snd (debounced
       (projr (debounce False five_only (Some sum_target)
          (Number (Fin 100000000000000000)) NotObject)) 0 None [1])"

text \<open>
  \<^verbatim>\<open>debounce(sum, 9007199254740994)\<close>, that is a wait of \<open>2\<^sup>5\<^sup>3 + 2\<close>,
  after a call with the argument 1 at time 0.
\<close>

definition tie_wait_called :: "(nat, string) closure" where
  "tie_wait_called =
     snd (debounced
       (projr (debounce False five_only (Some sum_target)
          (Number (Fin 9007199254740994)) NotObject)) 0 None [1])"





section \<open>Basic facts\<close>

lemmas js_defs = js_ge_def Math_max_def Math_min_def num_or_zero_def num_of_time_def

lemmas round_defs =
  round_double_def binary_exponent_def pow2_def round_half_even_def compute_bitlen

lemmas host_defs =
  setTimeout_def requestAnimationFrame_def clearTimeout_def cancelAnimationFrame_def
  startTimer_def cancelTimer_def

lemmas time_defs = timeSinceLastCall_def timeSinceLastInvoke_def maxWait_num_def

lemmas op_defs =
  invokeFunc_def leadingEdge_def remainingWait_def shouldInvoke_def trailingEdge_def
  timerExpired_def cancel_def flush_def pending_def debounced_def

lemmas instance_defs =
  debounce_def sum_target_def failing_target_def plain_100_def leading_100_def
  maxing_100_150_def failing_100_def no_trailing_100_def leading_100_flushed_def

subsection \<open>Numbers\<close>



lemma js_ge_Fin: "js_ge (Fin a) (Fin b) = (b \<le> a)"
  by (simp add: js_ge_def not_less)

lemma js_lt_time_zero: "js_lt (num_of_time a) (Fin 0) = (a < 0)"
  by (simp add: num_of_time_def)


lemma Math_min_Fin: "Math_min (Fin a) (Fin b) = Fin (min a b)"
  by (simp add: Math_min_def min_def)

lemma Math_min_PosInf: "Math_min a PosInf = a \<and> Math_min PosInf a = a"
  by (cases a) (simp_all add: Math_min_def)

lemma round_half_even_int: "round_half_even (of_int m) = m"
  by (simp add: round_half_even_def)

lemma pow2_pos: "0 < pow2 k"
  by (simp add: pow2_def)

text \<open>The binary exponent is the one the name says.\<close>

lemma binary_exponent_bounds:
  assumes "x \<noteq> 0"
  shows "pow2 (binary_exponent x) \<le> \<bar>x\<bar> \<and> \<bar>x\<bar> < pow2 (binary_exponent x + 1)"
proof (cases "1 \<le> \<bar>x\<bar>")
  case True
  let ?n = "\<lfloor>\<bar>x\<bar>\<rfloor>"
  have n1: "1 \<le> ?n" using True by simp
  then have pos: "0 < ?n" by simp
  have b1: "1 \<le> bitlen ?n"
    using pos bitlen_eq_zero_iff [of ?n] bitlen_nonneg [of ?n] by linarith
  have e: "binary_exponent x = bitlen ?n - 1" using True by (simp add: binary_exponent_def)
  have lo: "2 ^ nat (bitlen ?n - 1) \<le> ?n" and hi: "?n < 2 ^ nat (bitlen ?n)"
    using bitlen_bounds [OF pos] by simp_all
  have "real_of_int (2 ^ nat (bitlen ?n - 1)) \<le> real_of_int ?n" using lo by linarith
  also have "\<dots> \<le> \<bar>x\<bar>" by simp
  finally have l: "pow2 (bitlen ?n - 1) \<le> \<bar>x\<bar>" using b1 by (simp add: pow2_def)
  have "?n + 1 \<le> 2 ^ nat (bitlen ?n)" using hi by simp
  then have "real_of_int (?n + 1) \<le> real_of_int (2 ^ nat (bitlen ?n))" by linarith
  then have up: "real_of_int ?n + 1 \<le> 2 ^ nat (bitlen ?n)" by simp
  have "\<bar>x\<bar> < real_of_int ?n + 1" by linarith
  then have "\<bar>x\<bar> < 2 ^ nat (bitlen ?n)" using up by linarith
  then have h: "\<bar>x\<bar> < pow2 (bitlen ?n - 1 + 1)" using b1 by (simp add: pow2_def)
  show ?thesis using l h e by simp
next
  case False
  let ?r = "1 / \<bar>x\<bar>"
  let ?m = "\<lceil>?r\<rceil> - 1"
  have ax: "0 < \<bar>x\<bar>" "\<bar>x\<bar> < 1" using assms False by simp_all
  have r1: "1 < ?r" using ax by simp
  have m1: "1 \<le> ?m" using r1 by linarith
  then have pos: "0 < ?m" by simp
  have b1: "1 \<le> bitlen ?m"
    using pos bitlen_eq_zero_iff [of ?m] bitlen_nonneg [of ?m] by linarith
  have e: "binary_exponent x = - bitlen ?m" using False by (simp add: binary_exponent_def)
  have lo: "2 ^ nat (bitlen ?m - 1) \<le> ?m" and hi: "?m < 2 ^ nat (bitlen ?m)"
    using bitlen_bounds [OF pos] by simp_all
  have "?m + 1 \<le> 2 ^ nat (bitlen ?m)" using hi by simp
  then have "real_of_int (?m + 1) \<le> real_of_int (2 ^ nat (bitlen ?m))" by linarith
  then have up: "real_of_int ?m + 1 \<le> 2 ^ nat (bitlen ?m)" by simp
  have "?r \<le> real_of_int ?m + 1" by linarith
  then have "?r \<le> 2 ^ nat (bitlen ?m)" using up by linarith
  then have "1 \<le> 2 ^ nat (bitlen ?m) * \<bar>x\<bar>" using ax by (simp add: field_simps)
  then have "1 / 2 ^ nat (bitlen ?m) \<le> \<bar>x\<bar>" by (simp add: field_simps)
  then have l: "pow2 (- bitlen ?m) \<le> \<bar>x\<bar>" using b1 by (simp add: pow2_def)
  have below: "real_of_int ?m < ?r" by linarith
  have "real_of_int (2 ^ nat (bitlen ?m - 1)) \<le> real_of_int ?m" using lo by linarith
  then have "2 ^ nat (bitlen ?m - 1) \<le> real_of_int ?m" by simp
  then have "2 ^ nat (bitlen ?m - 1) < ?r" using below by linarith
  then have "2 ^ nat (bitlen ?m - 1) * \<bar>x\<bar> < 1" using ax by (simp add: field_simps)
  then have "\<bar>x\<bar> < 1 / 2 ^ nat (bitlen ?m - 1)" by (simp add: field_simps)
  moreover have "pow2 (- bitlen ?m + 1) = 1 / 2 ^ nat (bitlen ?m - 1)"
    using b1 by (cases "bitlen ?m = 1") (simp_all add: pow2_def)
  ultimately have h: "\<bar>x\<bar> < pow2 (- bitlen ?m + 1)" by simp
  show ?thesis using l h e by simp
qed

text \<open>Ties go to the even neighbour; one third is rounded to 53 bits.\<close>

lemma round_double_ties:
  "round_double (2 ^ 53 + 1) = Fin (2 ^ 53)"
  "round_double (2 ^ 53 + 3) = Fin (2 ^ 53 + 4)"
  "round_double (1 / 3) = Fin (6004799503160661 / 2 ^ 54)"
  by (simp_all add: round_double_def binary_exponent_def pow2_def round_half_even_def
      Let_def compute_bitlen)

lemma binary_exponent_int:
  assumes "n \<noteq> 0"
  shows "binary_exponent (of_int n) = bitlen \<bar>n\<bar> - 1"
proof -
  have "1 \<le> \<bar>real_of_int n\<bar>" using assms by linarith
  moreover have "\<lfloor>\<bar>real_of_int n\<bar>\<rfloor> = \<bar>n\<bar>"
    by (metis floor_of_int of_int_abs)
  ultimately show ?thesis by (simp add: binary_exponent_def)
qed

text \<open>A whole number of magnitude up to \<open>2\<^sup>5\<^sup>3\<close> is a double: rounding keeps it.\<close>

lemma round_double_int:
  assumes "\<bar>n\<bar> \<le> 2 ^ 53"
  shows "round_double (of_int n) = Fin (of_int n)"
proof (cases "n = 0")
  case True
  then show ?thesis by (simp add: round_double_def)
next
  case False
  let ?a = "\<bar>n\<bar>"
  let ?g = "max (bitlen ?a - 1 - 52) (- 1074)"
  have pos: "0 < ?a" using False by simp
  have lo: "2 ^ nat (bitlen ?a - 1) \<le> ?a"
    using bitlen_bounds [OF pos] by simp
  have b1: "1 \<le> bitlen ?a"
    using pos bitlen_eq_zero_iff [of ?a] bitlen_nonneg [of ?a] by linarith
  have b54: "bitlen ?a \<le> 54"
  proof (rule ccontr)
    assume "\<not> bitlen ?a \<le> 54"
    then have "54 \<le> nat (bitlen ?a - 1)" by simp
    then have "(2::int) ^ 54 \<le> 2 ^ nat (bitlen ?a - 1)"
      by (intro power_increasing) simp_all
    then show False using lo assms by simp
  qed
  have g: "?g = bitlen ?a - 53" using b1 by simp
  have whole: "\<exists>m. real_of_int n / pow2 ?g = of_int m"
  proof (cases "bitlen ?a \<le> 53")
    case True
    then have "pow2 ?g = 1 / 2 ^ nat (53 - bitlen ?a)"
      using g by (auto simp: pow2_def)
    then have "real_of_int n / pow2 ?g = of_int (n * 2 ^ nat (53 - bitlen ?a))" by simp
    then show ?thesis by blast
  next
    case False
    then have b: "bitlen ?a = 54" using b54 by simp
    then have "(2::int) ^ 53 \<le> ?a" using lo by simp
    then have a: "?a = 2 ^ 53" using assms by simp
    have p: "pow2 ?g = 2" using g b by (simp add: pow2_def)
    have "n = 2 ^ 53 \<or> n = - (2 ^ 53)" using a by linarith
    then have "real_of_int n / 2 = of_int (n div 2)" by auto
    then show ?thesis using p by auto
  qed
  then obtain m where m: "real_of_int n / pow2 ?g = of_int m" by blast
  have mul: "of_int m * pow2 ?g = real_of_int n"
    using m pow2_pos [of ?g] by (simp add: field_simps)
  have small: "\<not> (2::real) ^ 1024 \<le> \<bar>real_of_int n\<bar>"
  proof -
    have "\<bar>real_of_int n\<bar> \<le> 2 ^ 53"
      using assms by (metis of_int_abs of_int_le_iff of_int_numeral of_int_power)
    moreover have "(2::real) ^ 53 < 2 ^ 1024"
      by (intro power_strict_increasing) simp_all
    ultimately show ?thesis by linarith
  qed
  have nz: "real_of_int n \<noteq> 0" using False by simp
  show ?thesis
    unfolding round_double_def Let_def binary_exponent_int [OF False]
    using nz m mul small by (simp add: round_half_even_int)
qed

lemma js_sub_whole:
  "\<bar>a - b\<bar> \<le> 2 ^ 53 \<Longrightarrow>
     js_sub (Fin (of_int a)) (num_of_time b) = Fin (of_int (a - b))"
  using round_double_int [of "a - b"] by (simp add: num_of_time_def)





lemma num_or_zero_falsy: "\<not> ToBoolean v \<Longrightarrow> num_or_zero sn v = Inr n \<Longrightarrow> n = Fin 0"
  by (cases v) (auto simp: num_or_zero_def split: if_splits)



subsection \<open>The time since the last call\<close>

lemma timeSinceLastCall_set:
  "lastCallTime s = Some c \<Longrightarrow> timeSinceLastCall s t = num_of_time (t - c)"
  by (simp add: timeSinceLastCall_def)

lemma timeSinceLastInvoke_eq: "timeSinceLastInvoke s t = num_of_time (t - lastInvokeTime s)"
  by (simp add: timeSinceLastInvoke_def)

section \<open>The decision to invoke\<close>

text \<open>
  Claim C1. At every call time \<open>t\<close>, \<open>shouldInvoke\<close> is true exactly when no
  trigger has been recorded (\<open>lastCallTime\<close> is unset), or \<open>t - lastCallTime\<close> is
  at least \<open>wait\<close>, or \<open>t - lastCallTime\<close> is negative, or maxing is on and
  \<open>t - lastInvokeTime\<close> is at least \<open>maxWait\<close>. The differences are the
  integer differences of the clock readings: the NaN that the code computes while
  \<open>lastCallTime\<close> is undefined satisfies none of the comparisons. The debounced
  function and the timer callback both decide by this one predicate.
\<close>

theorem shouldInvoke_iff:
  "shouldInvoke s t =
     (case lastCallTime s of
        None \<Rightarrow> True
      | Some c \<Rightarrow>
          js_ge (num_of_time (t - c)) (wait s) \<or> t - c < 0 \<or>
          (maxing s \<and> js_ge (num_of_time (t - lastInvokeTime s)) (maxWait_num s)))"
  by (simp add: shouldInvoke_def timeSinceLastCall_set timeSinceLastInvoke_eq
      js_lt_time_zero split: option.split)

theorem shouldInvoke_iff_witness:
  "shouldInvoke plain_100 0 \<and>
   \<not> shouldInvoke (snd (debounced plain_100 0 None [7])) 50 \<and>
   shouldInvoke (snd (debounced plain_100 0 None [7])) 100 \<and>
   shouldInvoke (snd (debounced plain_100 10 None [7])) 5 \<and>
   \<not> shouldInvoke (snd (debounced maxing_100_150 0 None [7])) 99 \<and>
   shouldInvoke (snd (debounced (snd (debounced maxing_100_150 0 None [7])) 90 None [8])) 150"
proof -
  let ?p = "snd (debounced plain_100 0 None [7])"
  let ?b = "snd (debounced plain_100 10 None [7])"
  let ?m = "snd (debounced maxing_100_150 0 None [7])"
  let ?n = "snd (debounced (snd (debounced maxing_100_150 0 None [7])) 90 None [8])"
  have v: "lastCallTime plain_100 = None \<and>
      lastCallTime ?p = Some 0 \<and> wait ?p = Fin 100 \<and> \<not> maxing ?p \<and>
      lastCallTime ?b = Some 10 \<and> wait ?b = Fin 100 \<and> \<not> maxing ?b \<and>
      lastCallTime ?m = Some 0 \<and> wait ?m = Fin 100 \<and> maxing ?m \<and>
      maxWait ?m = Some (Fin 150) \<and> lastInvokeTime ?m = 0 \<and>
      lastCallTime ?n = Some 90 \<and> wait ?n = Fin 100 \<and> maxing ?n \<and>
      maxWait ?n = Some (Fin 150) \<and> lastInvokeTime ?n = 0"
    by (simp add: instance_defs debounced_def leadingEdge_def shouldInvoke_def host_defs
        time_defs js_defs Let_def)
  show ?thesis
    using v shouldInvoke_iff [of plain_100 0] shouldInvoke_iff [of ?p 50]
      shouldInvoke_iff [of ?p 100] shouldInvoke_iff [of ?b 5] shouldInvoke_iff [of ?m 99]
      shouldInvoke_iff [of ?n 150]
    by (simp add: num_of_time_def js_ge_Fin maxWait_num_def)
qed

section \<open>The policy is fixed at construction\<close>

lemma startTimer_policy: "policy (snd (startTimer s d)) = policy s"
  by (simp add: policy_def host_defs split: option.split)

lemma invokeFunc_policy: "policy (snd (invokeFunc s t)) = policy s"
  by (simp add: policy_def invokeFunc_def Let_def split: sum.split)

lemma trailingEdge_policy: "policy (snd (trailingEdge s t)) = policy s"
  using invokeFunc_policy [of "s\<lparr>timerId := None\<rparr>" t]
  by (simp add: trailingEdge_def Let_def) (simp add: policy_def)

lemma timerExpired_policy: "policy (snd (timerExpired s t)) = policy s"
  using startTimer_policy [of s "remainingWait s t"]
  by (simp add: timerExpired_def trailingEdge_policy split_beta) (simp add: policy_def)

lemma flush_policy: "policy (snd (flush s now)) = policy s"
  by (simp add: flush_def trailingEdge_policy split: option.split)

lemma cancel_policy: "policy (cancel s) = policy s"
  by (simp add: cancel_def policy_def host_defs Let_def split: option.split)

lemma leadingEdge_policy: "policy (snd (leadingEdge s t)) = policy s"
proof -
  let ?s1 = "s\<lparr>lastInvokeTime := t\<rparr>"
  let ?p = "startTimer ?s1 (wait ?s1)"
  let ?s3 = "(snd ?p)\<lparr>timerId := Some (fst ?p)\<rparr>"
  have "policy ?s3 = policy (snd ?p)" by (simp add: policy_def)
  also have "\<dots> = policy ?s1" by (rule startTimer_policy)
  also have "\<dots> = policy s" by (simp add: policy_def)
  finally have p3: "policy ?s3 = policy s" .
  have "snd (leadingEdge s t) = (if leading ?s3 then snd (invokeFunc ?s3 t) else ?s3)"
    by (simp add: leadingEdge_def Let_def split_beta)
  then show ?thesis using p3 invokeFunc_policy [of ?s3 t] by simp
qed

lemma debounced_policy: "policy (snd (debounced s now this args)) = policy s"
proof -
  let ?s1 = "s\<lparr>lastArgs := Some args, lastThis := this, lastCallTime := Some now\<rparr>"
  let ?p = "startTimer ?s1 (wait ?s1)"
  let ?s3 = "(snd ?p)\<lparr>timerId := Some (fst ?p)\<rparr>"
  have p1: "policy ?s1 = policy s" by (simp add: policy_def)
  have "policy ?s3 = policy (snd ?p)" by (simp add: policy_def)
  then have p3: "policy ?s3 = policy s" using startTimer_policy [of ?s1 "wait ?s1"] p1 by simp
  have "snd (debounced s now this args) = snd (leadingEdge ?s1 now) \<or>
        snd (debounced s now this args) = snd (invokeFunc ?s3 now) \<or>
        snd (debounced s now this args) = ?s3 \<or>
        snd (debounced s now this args) = ?s1"
    by (simp add: debounced_def Let_def split_beta)
  then show ?thesis
    using p1 p3 leadingEdge_policy [of ?s1 now] invokeFunc_policy [of ?s3 now] by auto
qed

lemma evolves_policy: "evolves s s' \<Longrightarrow> policy s' = policy s"
  by (induction rule: evolves.induct)
    (simp_all add: debounced_policy timerExpired_policy flush_policy cancel_policy)

section \<open>Executing the target\<close>

lemma invokeFunc_cleared:
  "lastArgs (snd (invokeFunc s t)) = None \<and> lastThis (snd (invokeFunc s t)) = None \<and>
   lastInvokeTime (snd (invokeFunc s t)) = t"
  by (simp add: invokeFunc_def Let_def split: sum.split)

lemma invokeFunc_invoked:
  "invoked (snd (invokeFunc s t)) =
     invoked s @ [(t, lastThis s, case lastArgs s of None \<Rightarrow> [] | Some a \<Rightarrow> a)]"
  by (simp add: invokeFunc_def Let_def split: sum.split)

lemma invokeFunc_fst:
  "fst (invokeFunc s t) = func s (lastThis s) (case lastArgs s of None \<Rightarrow> [] | Some a \<Rightarrow> a)"
  by (simp add: invokeFunc_def Let_def split: sum.split)

lemma invokeFunc_result:
  "result (snd (invokeFunc s t)) =
     (case fst (invokeFunc s t) of Inl e \<Rightarrow> result s | Inr r \<Rightarrow> r)"
  by (simp add: invokeFunc_def Let_def split: sum.split)

lemma invokeFunc_timer:
  "timerId (snd (invokeFunc s t)) = timerId s \<and>
   scheduled (snd (invokeFunc s t)) = scheduled s \<and>
   nextHandle (snd (invokeFunc s t)) = nextHandle s \<and>
   lastCallTime (snd (invokeFunc s t)) = lastCallTime s"
  by (simp add: invokeFunc_def Let_def split: sum.split)

section \<open>The trailing edge\<close>

lemma trailingEdge_skip:
  "\<not> (trailing s \<and> lastArgs s \<noteq> None) \<Longrightarrow>
     trailingEdge s t =
       (Inr (result s), s\<lparr>timerId := None, lastArgs := None, lastThis := None\<rparr>)"
  by (auto simp: trailingEdge_def Let_def)

lemma trailingEdge_run:
  "trailing s \<Longrightarrow> lastArgs s = Some a \<Longrightarrow>
     trailingEdge s t = invokeFunc (s\<lparr>timerId := None\<rparr>) t"
  by (simp add: trailingEdge_def Let_def)

lemma trailingEdge_cleared:
  "lastArgs (snd (trailingEdge s t)) = None \<and> lastThis (snd (trailingEdge s t)) = None \<and>
   timerId (snd (trailingEdge s t)) = None"
  using invokeFunc_cleared [of "s\<lparr>timerId := None\<rparr>" t]
    invokeFunc_timer [of "s\<lparr>timerId := None\<rparr>" t]
  by (simp add: trailingEdge_def Let_def)

lemma timerExpired_unset:
  "lastArgs s = None \<Longrightarrow>
     invoked (snd (timerExpired s t)) = invoked s \<and> lastArgs (snd (timerExpired s t)) = None"
  by (simp add: timerExpired_def trailingEdge_skip host_defs split_beta split: option.split)

lemma flush_unset: "lastArgs s = None \<Longrightarrow> invoked (snd (flush s now)) = invoked s"
  by (simp add: flush_def trailingEdge_skip split: option.split)

lemma timerExpired_no_trailing:
  "\<not> trailing s \<Longrightarrow> invoked (snd (timerExpired s t)) = invoked s"
  by (simp add: timerExpired_def trailingEdge_skip host_defs split_beta split: option.split)

lemma flush_no_trailing: "\<not> trailing s \<Longrightarrow> invoked (snd (flush s now)) = invoked s"
  by (simp add: flush_def trailingEdge_skip split: option.split)

lemma leadingEdge_invoked:
  "invoked (snd (leadingEdge s t)) =
     (if leading s
      then invoked s @ [(t, lastThis s, case lastArgs s of None \<Rightarrow> [] | Some a \<Rightarrow> a)]
      else invoked s)"
  by (simp add: leadingEdge_def Let_def split_beta invokeFunc_invoked host_defs
      split: option.split)

lemma debounced_invoked:
  "invoked (snd (debounced s now this args)) = invoked s \<or>
   invoked (snd (debounced s now this args)) = invoked s @ [(now, this, args)]"
  by (simp add: debounced_def Let_def split_beta leadingEdge_invoked invokeFunc_invoked
      host_defs split: option.split)

text \<open>
  Claim C10. Every run of the trailing edge leaves \<open>lastArgs\<close> and \<open>lastThis\<close>
  unset. When it does not execute the target (trailing is off, or nothing is
  queued) it returns the stored result, and neither the result nor the history of
  executions changes. With trailing off the outcome does not depend on what was
  queued, no timer callback and no flush ever executes the target, and a trigger
  executes it with its own arguments or not at all: queued arguments are never
  delivered later.
\<close>

theorem trailingEdge_drops_queued:
  "lastArgs (snd (trailingEdge s t)) = None \<and>
   lastThis (snd (trailingEdge s t)) = None \<and>
   (\<not> (trailing s \<and> lastArgs s \<noteq> None) \<longrightarrow>
      fst (trailingEdge s t) = Inr (result s) \<and>
      result (snd (trailingEdge s t)) = result s \<and>
      invoked (snd (trailingEdge s t)) = invoked s) \<and>
   (\<not> trailing s \<longrightarrow>
      trailingEdge (s\<lparr>lastArgs := a, lastThis := th\<rparr>) t =
        trailingEdge (s\<lparr>lastArgs := None, lastThis := None\<rparr>) t \<and>
      invoked (snd (timerExpired s t)) = invoked s \<and>
      invoked (snd (flush s t)) = invoked s \<and>
      (invoked (snd (debounced s t this args)) = invoked s \<or>
       invoked (snd (debounced s t this args)) = invoked s @ [(t, this, args)]))"
proof (intro conjI impI)
  show "lastArgs (snd (trailingEdge s t)) = None" by (simp add: trailingEdge_cleared)
  show "lastThis (snd (trailingEdge s t)) = None" by (simp add: trailingEdge_cleared)
next
  assume n: "\<not> (trailing s \<and> lastArgs s \<noteq> None)"
  show "fst (trailingEdge s t) = Inr (result s)" using n by (simp add: trailingEdge_skip)
  show "result (snd (trailingEdge s t)) = result s" using n by (simp add: trailingEdge_skip)
  show "invoked (snd (trailingEdge s t)) = invoked s" using n by (simp add: trailingEdge_skip)
next
  assume n: "\<not> trailing s"
  show "trailingEdge (s\<lparr>lastArgs := a, lastThis := th\<rparr>) t =
        trailingEdge (s\<lparr>lastArgs := None, lastThis := None\<rparr>) t"
    using n by (simp add: trailingEdge_skip)
  show "invoked (snd (timerExpired s t)) = invoked s" using n by (rule timerExpired_no_trailing)
  show "invoked (snd (flush s t)) = invoked s" using n by (rule flush_no_trailing)
  show "invoked (snd (debounced s t this args)) = invoked s \<or>
        invoked (snd (debounced s t this args)) = invoked s @ [(t, this, args)]"
    by (rule debounced_invoked)
qed

lemmas run_defs = instance_defs op_defs host_defs time_defs js_defs Let_def

theorem trailingEdge_drops_queued_witness:
  "lastArgs (snd (debounced no_trailing_100 0 None [7])) = Some [7] \<and>
   lastArgs (snd (trailingEdge (snd (debounced no_trailing_100 0 None [7])) 100)) = None \<and>
   fst (trailingEdge (snd (debounced no_trailing_100 0 None [7])) 100) = Inr None \<and>
   invoked (snd (trailingEdge (snd (debounced no_trailing_100 0 None [7])) 100)) = []"
proof -
  let ?q = "snd (debounced no_trailing_100 0 None [7])"
  have q: "lastArgs ?q = Some [7] \<and> \<not> trailing ?q \<and> result ?q = None \<and> invoked ?q = []"
    by (simp add: run_defs)
  show ?thesis using q trailingEdge_drops_queued [of ?q 100] by simp
qed

section \<open>Cancelling\<close>

lemma cancel_fields:
  "lastInvokeTime (cancel s) = 0 \<and> lastArgs (cancel s) = None \<and>
   lastCallTime (cancel s) = None \<and> lastThis (cancel s) = None \<and>
   timerId (cancel s) = None \<and> invoked (cancel s) = invoked s \<and>
   result (cancel s) = result s"
  by (simp add: cancel_def host_defs Let_def split: option.split)

lemma cancel_idem: "cancel (cancel s) = cancel s"
  by (simp add: cancel_def host_defs Let_def split: option.split)

lemma cancel_unschedules: "timerId s = Some h \<Longrightarrow> h \<notin> fst ` set (scheduled (cancel s))"
  by (auto simp: cancel_def host_defs Let_def)

text \<open>
  Claim C5. From every state, \<^verbatim>\<open>cancel\<close> leaves \<open>lastInvokeTime\<close> at 0 and
  \<open>lastArgs\<close>, \<open>lastCallTime\<close>, \<open>lastThis\<close> and \<open>timerId\<close> unset, so
  \<^verbatim>\<open>pending\<close> is false at once. The target is not executed by the cancelling,
  the cancelled timer is no longer with the host, and neither a timer callback nor
  a flush that comes after executes the target. Cancelling again changes nothing.
\<close>

theorem cancel_resets:
  "lastInvokeTime (cancel s) = 0 \<and> lastArgs (cancel s) = None \<and>
   lastCallTime (cancel s) = None \<and> lastThis (cancel s) = None \<and>
   timerId (cancel s) = None \<and> \<not> pending (cancel s) \<and>
   invoked (cancel s) = invoked s \<and>
   (timerId s = Some h \<longrightarrow> h \<notin> fst ` set (scheduled (cancel s))) \<and>
   invoked (snd (timerExpired (cancel s) t)) = invoked s \<and>
   flush (cancel s) now = (Inr (result s), cancel s) \<and>
   cancel (cancel s) = cancel s"
proof -
  have f: "lastArgs (cancel s) = None" "timerId (cancel s) = None"
    "invoked (cancel s) = invoked s" "result (cancel s) = result s"
    by (simp_all add: cancel_fields)
  have "invoked (snd (timerExpired (cancel s) t)) = invoked s"
    using timerExpired_unset [OF f(1), of t] f(3) by simp
  moreover have "flush (cancel s) now = (Inr (result s), cancel s)"
    using f(2) f(4) by (simp add: flush_def)
  ultimately show ?thesis
    by (simp add: cancel_fields cancel_idem cancel_unschedules pending_def)
qed

theorem cancel_resets_witness:
  "pending (snd (debounced plain_100 0 None [7])) \<and>
   timerId (snd (debounced plain_100 0 None [7])) = Some 0 \<and>
   \<not> pending (cancel (snd (debounced plain_100 0 None [7]))) \<and>
   0 \<notin> fst ` set (scheduled (cancel (snd (debounced plain_100 0 None [7])))) \<and>
   invoked (snd (timerExpired (cancel (snd (debounced plain_100 0 None [7]))) 100)) = []"
proof -
  let ?q = "snd (debounced plain_100 0 None [7])"
  have q: "timerId ?q = Some 0 \<and> invoked ?q = []"
    by (simp add: run_defs)
  show ?thesis using q cancel_resets [of ?q 0 100 100] by (simp add: pending_def)
qed

section \<open>Flushing\<close>

text \<open>
  Claim C2, as the code has it. With no timer pending, \<^verbatim>\<open>flush\<close> returns the
  stored result and changes nothing. With a timer pending it runs the trailing edge
  at the current time and the timer handle is cleared: when trailing is on and
  arguments are queued, the target is executed at once with the queued receiver and
  arguments, and its outcome is returned and stored; when trailing is off or nothing
  is queued, the stored result is returned and the target is not executed.
\<close>

theorem flush_behaviour:
  "(\<not> pending s \<longrightarrow> flush s now = (Inr (result s), s)) \<and>
   (pending s \<and> trailing s \<and> lastArgs s = Some a \<longrightarrow>
      fst (flush s now) = func s (lastThis s) a \<and>
      invoked (snd (flush s now)) = invoked s @ [(now, lastThis s, a)] \<and>
      (fst (flush s now) = Inr r \<longrightarrow> result (snd (flush s now)) = r) \<and>
      \<not> pending (snd (flush s now))) \<and>
   (pending s \<and> \<not> (trailing s \<and> lastArgs s \<noteq> None) \<longrightarrow>
      fst (flush s now) = Inr (result s) \<and>
      invoked (snd (flush s now)) = invoked s \<and>
      result (snd (flush s now)) = result s \<and>
      \<not> pending (snd (flush s now)))"
proof (intro conjI impI)
  assume "\<not> pending s"
  then show "flush s now = (Inr (result s), s)" by (simp add: flush_def pending_def)
next
  assume h: "pending s \<and> trailing s \<and> lastArgs s = Some a"
  then obtain k where k: "timerId s = Some k" by (auto simp: pending_def)
  have e: "flush s now = invokeFunc (s\<lparr>timerId := None\<rparr>) now"
    using h k by (simp add: flush_def trailingEdge_run)
  show "fst (flush s now) = func s (lastThis s) a"
    using h by (simp add: e invokeFunc_fst)
  show "invoked (snd (flush s now)) = invoked s @ [(now, lastThis s, a)]"
    using h by (simp add: e invokeFunc_invoked)
  show "\<not> pending (snd (flush s now))"
    by (simp add: e pending_def invokeFunc_timer)
  { assume "fst (flush s now) = Inr r"
    then show "result (snd (flush s now)) = r"
      using invokeFunc_result [of "s\<lparr>timerId := None\<rparr>" now] by (simp add: e) }
next
  assume h: "pending s \<and> \<not> (trailing s \<and> lastArgs s \<noteq> None)"
  then obtain k where k: "timerId s = Some k" by (auto simp: pending_def)
  have e: "flush s now =
      (Inr (result s), s\<lparr>timerId := None, lastArgs := None, lastThis := None\<rparr>)"
    using h k trailingEdge_skip [of s now] by (simp add: flush_def)
  show "fst (flush s now) = Inr (result s)" by (simp add: e)
  show "invoked (snd (flush s now)) = invoked s" by (simp add: e)
  show "result (snd (flush s now)) = result s" by (simp add: e)
  show "\<not> pending (snd (flush s now))" by (simp add: e pending_def)
qed

theorem flush_behaviour_witness:
  "flush plain_100 10 = (Inr None, plain_100) \<and>
   fst (flush (snd (debounced plain_100 0 (Some 3) [7, 8])) 10) = Inr (Some 15) \<and>
   invoked (snd (flush (snd (debounced plain_100 0 (Some 3) [7, 8])) 10)) =
     [(10, Some 3, [7, 8])] \<and>
   result (snd (flush (snd (debounced plain_100 0 (Some 3) [7, 8])) 10)) = Some 15 \<and>
   fst (flush (snd (debounced no_trailing_100 0 None [7])) 10) = Inr None \<and>
   invoked (snd (flush (snd (debounced no_trailing_100 0 None [7])) 10)) = []"
proof -
  let ?q = "snd (debounced plain_100 0 (Some 3) [7, 8])"
  let ?n = "snd (debounced no_trailing_100 0 None [7])"
  have p: "\<not> pending plain_100 \<and> result plain_100 = None"
    by (simp add: run_defs)
  have q: "pending ?q \<and> trailing ?q \<and> lastArgs ?q = Some [7, 8] \<and> lastThis ?q = Some 3 \<and>
      invoked ?q = [] \<and> func ?q = sum_target"
    by (simp add: run_defs)
  have n: "pending ?n \<and> \<not> trailing ?n \<and> invoked ?n = [] \<and> result ?n = None"
    by (simp add: run_defs)
  show ?thesis
    using p q n flush_behaviour [of plain_100 10 "[7, 8]" "Some 15"]
      flush_behaviour [of ?q 10 "[7, 8]" "Some 15"]
      flush_behaviour [of ?n 10 "[7, 8]" "Some 15"]
    by (simp add: sum_target_def)
qed

text \<open>
  The claim as the spec words it fails. After a single trigger of
  \<^verbatim>\<open>debounce(sum, 100, {leading: true})\<close> the timer is pending and the leading
  execution has emptied the queue; after a single trigger of
  \<^verbatim>\<open>debounce(sum, 100, {trailing: false})\<close> the timer is pending and the
  arguments are queued. In both states \<^verbatim>\<open>flush\<close> returns the stored result and
  executes nothing.
\<close>

theorem flush_pending_without_execution:
  "pending (snd (debounced leading_100 0 None [1])) \<and>
   invoked (snd (debounced leading_100 0 None [1])) = [(0, None, [1])] \<and>
   invoked (snd (flush (snd (debounced leading_100 0 None [1])) 10)) = [(0, None, [1])] \<and>
   fst (flush (snd (debounced leading_100 0 None [1])) 10) = Inr (Some 1) \<and>
   pending (snd (debounced no_trailing_100 0 None [7])) \<and>
   lastArgs (snd (debounced no_trailing_100 0 None [7])) = Some [7] \<and>
   invoked (snd (flush (snd (debounced no_trailing_100 0 None [7])) 10)) = [] \<and>
   fst (flush (snd (debounced no_trailing_100 0 None [7])) 10) = Inr None"
  by (simp add: run_defs)

section \<open>The state is cleared before the target runs\<close>

lemma invokeFunc_cleared_at: "cleared_at (snd (invokeFunc s t)) t"
  by (simp add: cleared_at_def invokeFunc_cleared)

lemma invokeFunc_throws:
  "fst (invokeFunc s t) = Inl e \<Longrightarrow> result (snd (invokeFunc s t)) = result s"
  by (simp add: invokeFunc_result)

lemma invokeFunc_grows: "invoked (snd (invokeFunc s t)) \<noteq> invoked s"
  by (simp add: invokeFunc_invoked)

text \<open>
  Each entry point either ends in \<open>invokeFunc\<close>, or returns a value without
  executing the target.
\<close>

lemma leadingEdge_shape:
  "(\<exists>x. leadingEdge s t = invokeFunc x t \<and> result x = result s \<and> invoked x = invoked s) \<or>
   ((\<exists>r. fst (leadingEdge s t) = Inr r) \<and> invoked (snd (leadingEdge s t)) = invoked s)"
proof (cases "leading s")
  case True
  let ?p = "startTimer (s\<lparr>lastInvokeTime := t\<rparr>) (wait s)"
  let ?x = "(snd ?p)\<lparr>timerId := Some (fst ?p)\<rparr>"
  have "leadingEdge s t = invokeFunc ?x t"
    using True startTimer_policy [of "s\<lparr>lastInvokeTime := t\<rparr>" "wait s"]
    by (simp add: leadingEdge_def Let_def split_beta policy_def)
  moreover have "result ?x = result s \<and> invoked ?x = invoked s"
    by (simp add: host_defs split: option.split)
  ultimately show ?thesis by blast
next
  case False
  then show ?thesis
    using startTimer_policy [of "s\<lparr>lastInvokeTime := t\<rparr>" "wait s"]
    by (simp add: leadingEdge_def Let_def split_beta policy_def)
      (simp add: host_defs split: option.split)
qed

lemma trailingEdge_shape:
  "(\<exists>x. trailingEdge s t = invokeFunc x t \<and> result x = result s \<and> invoked x = invoked s) \<or>
   ((\<exists>r. fst (trailingEdge s t) = Inr r) \<and> invoked (snd (trailingEdge s t)) = invoked s)"
proof (cases "trailing s \<and> lastArgs s \<noteq> None")
  case True
  then have "trailingEdge s t = invokeFunc (s\<lparr>timerId := None\<rparr>) t"
    by (simp add: trailingEdge_def Let_def)
  moreover have "result (s\<lparr>timerId := None\<rparr>) = result s \<and>
      invoked (s\<lparr>timerId := None\<rparr>) = invoked s"
    by simp
  ultimately show ?thesis by blast
next
  case False
  then show ?thesis by (simp add: trailingEdge_skip)
qed

lemma timerExpired_shape:
  "(\<exists>x. timerExpired s t = invokeFunc x t \<and> result x = result s \<and> invoked x = invoked s) \<or>
   ((\<exists>r. fst (timerExpired s t) = Inr r) \<and> invoked (snd (timerExpired s t)) = invoked s)"
  using trailingEdge_shape [of s t]
  by (simp add: timerExpired_def split_beta host_defs split: option.split)

lemma flush_shape:
  "(\<exists>x. flush s t = invokeFunc x t \<and> result x = result s \<and> invoked x = invoked s) \<or>
   ((\<exists>r. fst (flush s t) = Inr r) \<and> invoked (snd (flush s t)) = invoked s)"
  using trailingEdge_shape [of s t]
  by (simp add: flush_def split: option.split)

lemma debounced_shape:
  "(\<exists>x. debounced s t this args = invokeFunc x t \<and> result x = result s \<and>
        invoked x = invoked s) \<or>
   ((\<exists>r. fst (debounced s t this args) = Inr r) \<and>
    invoked (snd (debounced s t this args)) = invoked s)"
proof -
  let ?s1 = "s\<lparr>lastArgs := Some args, lastThis := this, lastCallTime := Some t\<rparr>"
  let ?p = "startTimer ?s1 (wait ?s1)"
  let ?x = "(snd ?p)\<lparr>timerId := Some (fst ?p)\<rparr>"
  have x: "result ?x = result s \<and> invoked ?x = invoked s"
    by (simp add: host_defs split: option.split)
  consider (lead) "shouldInvoke s t" "timerId s = None"
    | (forced) "shouldInvoke s t" "timerId s \<noteq> None" "maxing s"
    | (start) "\<not> shouldInvoke s t" "timerId s = None"
    | (keep) "timerId s \<noteq> None" "\<not> (shouldInvoke s t \<and> maxing s)"
    by blast
  then show ?thesis
  proof cases
    case lead
    then have "debounced s t this args = leadingEdge ?s1 t"
      by (simp add: debounced_def Let_def)
    then show ?thesis using leadingEdge_shape [of ?s1 t] by simp
  next
    case forced
    then have "debounced s t this args = invokeFunc ?x t"
      by (auto simp: debounced_def Let_def split_beta)
    then show ?thesis using x by blast
  next
    case start
    then have "debounced s t this args = (Inr (result (snd ?p)), ?x)"
      by (simp add: debounced_def Let_def split_beta)
    then show ?thesis using x by simp
  next
    case keep
    then have "debounced s t this args = (Inr (result ?s1), ?s1)"
      by (auto simp: debounced_def Let_def)
    then show ?thesis by simp
  qed
qed

lemma shape_cleared:
  assumes "(\<exists>x. out = invokeFunc x t \<and> result x = result s \<and> invoked x = invoked s) \<or>
     ((\<exists>r. fst out = Inr r) \<and> invoked (snd out) = invoked s)"
  shows "(invoked (snd out) \<noteq> invoked s \<longrightarrow> cleared_at (snd out) t) \<and>
         (fst out = Inl e \<longrightarrow>
            cleared_at (snd out) t \<and> result (snd out) = result s \<and>
            invoked (snd out) \<noteq> invoked s)"
  using assms
proof (elim disjE exE conjE)
  fix x assume x: "out = invokeFunc x t" "result x = result s" "invoked x = invoked s"
  show ?thesis
    using x invokeFunc_cleared_at [of x t] invokeFunc_throws [of x t e] invokeFunc_grows [of x t]
    by simp
next
  fix r assume "fst out = Inr r" "invoked (snd out) = invoked s"
  then show ?thesis by simp
qed

text \<open>
  Claim C7. \<open>invokeFunc\<close>, through which every execution of the target goes,
  leaves \<open>lastArgs\<close> and \<open>lastThis\<close> unset and \<open>lastInvokeTime\<close> set to the
  time of the execution, whether the target returns or throws. So whenever a call
  of the debounced function, a timer callback or a flush has executed the target,
  the state is cleared in this way; and when the target threw there, the stored
  result is the old one, no later timer callback or flush executes the target
  again, and a later trigger delivers its own arguments only.
\<close>

theorem invocation_clears_first:
  assumes "out = debounced s t this args \<or> out = timerExpired s t \<or> out = flush s t"
  shows "cleared_at (snd (invokeFunc s t)) t \<and>
         (invoked (snd out) \<noteq> invoked s \<longrightarrow> cleared_at (snd out) t) \<and>
         (fst out = Inl e \<longrightarrow>
            cleared_at (snd out) t \<and> result (snd out) = result s \<and>
            invoked (snd out) \<noteq> invoked s \<and>
            invoked (snd (timerExpired (snd out) t')) = invoked (snd out) \<and>
            invoked (snd (flush (snd out) t')) = invoked (snd out) \<and>
            (invoked (snd (debounced (snd out) t' this' args')) = invoked (snd out) \<or>
             invoked (snd (debounced (snd out) t' this' args')) =
               invoked (snd out) @ [(t', this', args')]))"
proof -
  have sh: "(\<exists>x. out = invokeFunc x t \<and> result x = result s \<and> invoked x = invoked s) \<or>
     ((\<exists>r. fst out = Inr r) \<and> invoked (snd out) = invoked s)"
    using assms debounced_shape [of s t this args] timerExpired_shape [of s t]
      flush_shape [of s t]
    by auto
  note c = shape_cleared [OF sh, of e]
  have later: "cleared_at (snd out) t \<Longrightarrow>
      invoked (snd (timerExpired (snd out) t')) = invoked (snd out) \<and>
      invoked (snd (flush (snd out) t')) = invoked (snd out)"
    by (simp add: cleared_at_def timerExpired_unset flush_unset)
  show ?thesis
    using c later debounced_invoked [of "snd out" t' this' args']
      invokeFunc_cleared_at [of s t]
    by blast
qed

theorem invocation_clears_first_witness:
  "fst (timerExpired (snd (debounced failing_100 0 None [7])) 100) = Inl ''boom'' \<and>
   invoked (snd (timerExpired (snd (debounced failing_100 0 None [7])) 100)) =
     [(100, None, [7])] \<and>
   lastArgs (snd (timerExpired (snd (debounced failing_100 0 None [7])) 100)) = None \<and>
   lastInvokeTime (snd (timerExpired (snd (debounced failing_100 0 None [7])) 100)) = 100 \<and>
   invoked (snd (timerExpired
     (snd (timerExpired (snd (debounced failing_100 0 None [7])) 100)) 200)) =
     [(100, None, [7])]"
proof -
  let ?q = "snd (debounced failing_100 0 None [7])"
  have q: "fst (timerExpired ?q 100) = Inl ''boom'' \<and>
      invoked (snd (timerExpired ?q 100)) = [(100, None, [7])]"
    by (simp add: run_defs)
  show ?thesis
    using q invocation_clears_first [of "timerExpired ?q 100" ?q 100 None "[]" "''boom''" 200 None "[]"]
    by (simp add: cleared_at_def)
qed

section \<open>Construction: coercion of the numbers\<close>

lemma debounce_Inr:
  assumes "debounce raf sn (Some f) w opts = Inr s"
  shows "(\<exists>n. num_or_zero sn w = Inr n \<and> wait s = n) \<and>
         useRAF s = (\<not> ToBoolean w \<and> w \<noteq> Number (Fin 0) \<and> raf) \<and>
         maxing s = has_prop ''maxWait'' opts \<and>
         (has_prop ''maxWait'' opts \<longrightarrow>
            (\<exists>m. num_or_zero sn (get_prop opts ''maxWait'') = Inr m \<and>
                 maxWait s = Some (Math_max m (wait s)))) \<and>
         (\<not> has_prop ''maxWait'' opts \<longrightarrow> maxWait s = None)"
  using assms
  by (cases opts) (auto simp: debounce_def Let_def split: sum.splits if_splits)


lemma debounce_wait:
  "debounce raf sn (Some f) w opts = Inr s \<Longrightarrow> num_or_zero sn w = Inr (wait s)"
  using debounce_Inr [of raf sn f w opts s] by auto

lemma debounce_useRAF:
  "debounce raf sn (Some f) w opts = Inr s \<Longrightarrow>
     useRAF s = (\<not> ToBoolean w \<and> w \<noteq> Number (Fin 0) \<and> raf)"
  using debounce_Inr [of raf sn f w opts s] by auto




section \<open>Construction: the scheduling mode\<close>






section \<open>Every trigger leaves a timer, unless the target takes it away\<close>


















section \<open>Rescheduling at an early timer callback\<close>

lemma frame_mode_wait:
  assumes "debounce raf sn (Some f) w opts = Inr s0" and "evolves s0 s" and "useRAF s"
  shows "wait s = Fin 0"
proof -
  have "policy s = policy s0" using assms(2) by (rule evolves_policy)
  then have eq: "wait s = wait s0" "useRAF s = useRAF s0" by (simp_all add: policy_def)
  have "\<not> ToBoolean w" using assms(3) eq(2) debounce_useRAF [OF assms(1)] by simp
  then have "wait s0 = Fin 0"
    using debounce_wait [OF assms(1)] by (rule num_or_zero_falsy)
  then show ?thesis using eq(1) by simp
qed

lemma zero_wait_invokes: "wait s = Fin 0 \<Longrightarrow> shouldInvoke s t"
proof (cases "lastCallTime s")
  case None
  then show ?thesis by (simp add: shouldInvoke_def)
next
  case (Some c)
  assume "wait s = Fin 0"
  then have "js_ge (timeSinceLastCall s t) (wait s) = (0 \<le> t - c)"
    using Some by (simp add: timeSinceLastCall_set num_of_time_def js_ge_Fin)
  moreover have "js_lt (timeSinceLastCall s t) (Fin 0) = (t - c < 0)"
    using Some by (simp add: timeSinceLastCall_set js_lt_time_zero)
  ultimately show ?thesis by (auto simp: shouldInvoke_def)
qed

lemma remainingWait_eq:
  "lastCallTime s = Some c \<Longrightarrow>
     remainingWait s t =
       (if maxing s
        then Math_min (js_sub (wait s) (num_of_time (t - c)))
               (js_sub (maxWait_num s) (num_of_time (t - lastInvokeTime s)))
        else js_sub (wait s) (num_of_time (t - c)))"
  by (simp add: remainingWait_def Let_def timeSinceLastCall_set timeSinceLastInvoke_eq)

lemma js_sub_rounds: "js_sub (Fin x) (num_of_time k) = round_double (x - real_of_int k)"
  by (simp add: num_of_time_def)

text \<open>
  Claim C6, as the code has it. In every state of an instance built by
  \<^verbatim>\<open>debounce\<close>, a timer callback at a time \<open>t\<close> at which \<open>shouldInvoke\<close>
  is false does not execute the target and starts a timeout whose delay \<open>d\<close> is
  \<^verbatim>\<open>Math.min(wait - (t - lastCallTime), maxWait - (t - lastInvokeTime))\<close> when
  maxing is on and \<^verbatim>\<open>wait - (t - lastCallTime)\<close> otherwise, where the
  subtraction from \<open>wait\<close> and from \<open>maxWait\<close> is the one of doubles: the exact
  difference rounded to the nearest double. The delay is the exact value of the
  formula when \<open>wait\<close> and \<open>maxWait\<close> are whole numbers and the two
  differences are at most \<open>2\<^sup>5\<^sup>3\<close> in magnitude. With an infinite \<open>maxWait\<close>
  the delay is the rounded \<open>wait - (t - lastCallTime)\<close>, with an infinite
  \<open>wait\<close> it is infinite. (In the frame mode \<open>wait\<close> is 0 and
  \<open>shouldInvoke\<close> is never false, so the timer is a timeout.)
\<close>

theorem timerExpired_reschedules:
  assumes "debounce raf sn (Some f) w opts = Inr s0" and "evolves s0 s"
    and "\<not> shouldInvoke s t"
  shows "\<exists>c d. lastCallTime s = Some c \<and>
           fst (timerExpired s t) = Inr None \<and>
           invoked (snd (timerExpired s t)) = invoked s \<and>
           timerId (snd (timerExpired s t)) = Some (nextHandle s) \<and>
           scheduled (snd (timerExpired s t)) = scheduled s @ [(nextHandle s, Timeout d)] \<and>
           d = (if maxing s
                then Math_min (js_sub (wait s) (num_of_time (t - c)))
                       (js_sub (maxWait_num s) (num_of_time (t - lastInvokeTime s)))
                else js_sub (wait s) (num_of_time (t - c))) \<and>
           (\<forall>x. \<not> maxing s \<and> wait s = Fin x \<longrightarrow>
              d = round_double (x - real_of_int (t - c))) \<and>
           (\<forall>x y a b. maxing s \<and> wait s = Fin x \<and> maxWait s = Some (Fin y) \<and>
              round_double (x - real_of_int (t - c)) = Fin a \<and>
              round_double (y - real_of_int (t - lastInvokeTime s)) = Fin b \<longrightarrow>
              d = Fin (min a b)) \<and>
           (\<forall>i. \<not> maxing s \<and> wait s = Fin (of_int i) \<and> \<bar>i - (t - c)\<bar> \<le> 2 ^ 53 \<longrightarrow>
              d = Fin (of_int (i - (t - c)))) \<and>
           (\<forall>i j. maxing s \<and> wait s = Fin (of_int i) \<and> maxWait s = Some (Fin (of_int j)) \<and>
              \<bar>i - (t - c)\<bar> \<le> 2 ^ 53 \<and> \<bar>j - (t - lastInvokeTime s)\<bar> \<le> 2 ^ 53 \<longrightarrow>
              d = Fin (of_int (min (i - (t - c)) (j - (t - lastInvokeTime s))))) \<and>
           (\<forall>x. maxing s \<and> wait s = Fin x \<and> maxWait s = Some PosInf \<longrightarrow>
              d = round_double (x - real_of_int (t - c))) \<and>
           (wait s = PosInf \<and> (maxing s \<longrightarrow> maxWait s = Some PosInf) \<longrightarrow> d = PosInf)"
proof -
  have nf: "\<not> useRAF s"
    using frame_mode_wait [OF assms(1) assms(2)] zero_wait_invokes [of s t] assms(3) by blast
  obtain c where c: "lastCallTime s = Some c"
    using assms(3) by (cases "lastCallTime s") (simp_all add: shouldInvoke_def)
  let ?k = "t - c" and ?l = "t - lastInvokeTime s"
  let ?d = "remainingWait s t"
  have run: "timerExpired s t =
      (Inr None,
       s\<lparr>scheduled := scheduled s @ [(nextHandle s, Timeout ?d)],
         nextHandle := Suc (nextHandle s), timerId := Some (nextHandle s)\<rparr>)"
    using assms(3) nf by (simp add: timerExpired_def startTimer_def setTimeout_def)
  have d: "?d = (if maxing s
      then Math_min (js_sub (wait s) (num_of_time ?k)) (js_sub (maxWait_num s) (num_of_time ?l))
      else js_sub (wait s) (num_of_time ?k))"
    using c by (rule remainingWait_eq)
  have r1: "\<forall>x. \<not> maxing s \<and> wait s = Fin x \<longrightarrow> ?d = round_double (x - real_of_int ?k)"
    using d by (simp add: js_sub_rounds)
  have r2: "\<forall>x y a b. maxing s \<and> wait s = Fin x \<and> maxWait s = Some (Fin y) \<and>
      round_double (x - real_of_int ?k) = Fin a \<and>
      round_double (y - real_of_int ?l) = Fin b \<longrightarrow> ?d = Fin (min a b)"
    using d by (simp add: js_sub_rounds maxWait_num_def Math_min_Fin)
  have r3: "\<forall>i. \<not> maxing s \<and> wait s = Fin (of_int i) \<and> \<bar>i - ?k\<bar> \<le> 2 ^ 53 \<longrightarrow>
      ?d = Fin (of_int (i - ?k))"
    using d by (simp add: js_sub_whole)
  have r4: "\<forall>i j. maxing s \<and> wait s = Fin (of_int i) \<and> maxWait s = Some (Fin (of_int j)) \<and>
      \<bar>i - ?k\<bar> \<le> 2 ^ 53 \<and> \<bar>j - ?l\<bar> \<le> 2 ^ 53 \<longrightarrow>
      ?d = Fin (of_int (min (i - ?k) (j - ?l)))"
    using d by (simp add: js_sub_whole maxWait_num_def Math_min_Fin of_int_min)
  have r5: "\<forall>x. maxing s \<and> wait s = Fin x \<and> maxWait s = Some PosInf \<longrightarrow>
      ?d = round_double (x - real_of_int ?k)"
    using d by (simp add: js_sub_rounds maxWait_num_def num_of_time_def Math_min_PosInf)
  have r6: "wait s = PosInf \<and> (maxing s \<longrightarrow> maxWait s = Some PosInf) \<longrightarrow> ?d = PosInf"
    using d by (simp add: maxWait_num_def num_of_time_def Math_min_PosInf)
  show ?thesis
    apply (rule exI [of _ c])
    apply (rule exI [of _ ?d])
    using c d r1 r2 r3 r4 r5 r6 by (simp add: run)
qed

theorem timerExpired_reschedules_witness:
  "\<not> shouldInvoke (snd (debounced (snd (debounced plain_100 0 None [1])) 50 None [2])) 100 \<and>
   scheduled (snd (timerExpired
       (snd (debounced (snd (debounced plain_100 0 None [1])) 50 None [2])) 100)) =
     [(0, Timeout (Fin 100)), (1, Timeout (Fin 50))] \<and>
   \<not> shouldInvoke
       (snd (debounced (snd (debounced maxing_100_150 0 None [1])) 90 None [2])) 100 \<and>
   scheduled (snd (timerExpired
       (snd (debounced (snd (debounced maxing_100_150 0 None [1])) 90 None [2])) 100)) =
     [(0, Timeout (Fin 100)), (1, Timeout (Fin 50))] \<and>
   \<not> shouldInvoke
       (snd (debounced (snd (debounced maxing_100_150 0 None [1])) 40 None [2])) 100 \<and>
   scheduled (snd (timerExpired
       (snd (debounced (snd (debounced maxing_100_150 0 None [1])) 40 None [2])) 100)) =
     [(0, Timeout (Fin 100)), (1, Timeout (Fin 40))] \<and>
   \<not> shouldInvoke tie_wait_called 1 \<and>
   scheduled (snd (timerExpired tie_wait_called 1)) =
     [(0, Timeout (Fin 9007199254740994)), (1, Timeout (Fin 9007199254740992))]"
proof -
  let ?p = "snd (debounced (snd (debounced plain_100 0 None [1])) 50 None [2])"
  let ?m = "snd (debounced (snd (debounced maxing_100_150 0 None [1])) 90 None [2])"
  let ?n = "snd (debounced (snd (debounced maxing_100_150 0 None [1])) 40 None [2])"
  have cp: "debounce False five_only (Some sum_target) (Number (Fin 100)) NotObject =
      Inr plain_100"
    by (simp add: debounce_def plain_100_def num_or_zero_def Let_def)
  have cm: "debounce False five_only (Some sum_target) (Number (Fin 100))
      (Options [''maxWait'' \<mapsto> Number (Fin 150)]) = Inr maxing_100_150"
    by (simp add: debounce_def maxing_100_150_def num_or_zero_def Let_def)
  have ep: "evolves plain_100 ?p" by (intro evolves.intros)
  have em: "evolves maxing_100_150 ?m" by (intro evolves.intros)
  have en: "evolves maxing_100_150 ?n" by (intro evolves.intros)
  have vp: "\<not> shouldInvoke ?p 100 \<and> lastCallTime ?p = Some 50 \<and> \<not> maxing ?p \<and>
      wait ?p = Fin (of_int 100) \<and> scheduled ?p = [(0, Timeout (Fin 100))] \<and>
      nextHandle ?p = 1"
    by (simp add: run_defs)
  have vm: "\<not> shouldInvoke ?m 100 \<and> lastCallTime ?m = Some 90 \<and> maxing ?m \<and>
      wait ?m = Fin (of_int 100) \<and> maxWait ?m = Some (Fin (of_int 150)) \<and>
      lastInvokeTime ?m = 0 \<and> scheduled ?m = [(0, Timeout (Fin 100))] \<and> nextHandle ?m = 1"
    by (simp add: run_defs)
  have vn: "\<not> shouldInvoke ?n 100 \<and> lastCallTime ?n = Some 40 \<and> maxing ?n \<and>
      wait ?n = Fin (of_int 100) \<and> maxWait ?n = Some (Fin (of_int 150)) \<and>
      lastInvokeTime ?n = 0 \<and> scheduled ?n = [(0, Timeout (Fin 100))] \<and> nextHandle ?n = 1"
    by (simp add: run_defs)
  have np: "\<not> shouldInvoke ?p 100" and nm: "\<not> shouldInvoke ?m 100"
    and nn: "\<not> shouldInvoke ?n 100"
    using vp vm vn by simp_all
  have "scheduled (snd (timerExpired ?p 100)) = [(0, Timeout (Fin 100)), (1, Timeout (Fin 50))]"
  proof -
    from timerExpired_reschedules [OF cp ep np] obtain c d where
      h: "lastCallTime ?p = Some c"
        "scheduled (snd (timerExpired ?p 100)) = scheduled ?p @ [(nextHandle ?p, Timeout d)]"
        "\<forall>i. \<not> maxing ?p \<and> wait ?p = Fin (of_int i) \<and> \<bar>i - (100 - c)\<bar> \<le> 2 ^ 53 \<longrightarrow>
           d = Fin (of_int (i - (100 - c)))"
      by blast
    have c: "c = 50" using h(1) vp by simp
    have "d = Fin 50" using h(3) [rule_format, of 100] vp c by simp
    then show ?thesis using h(2) vp by simp
  qed
  moreover
  have "scheduled (snd (timerExpired ?m 100)) = [(0, Timeout (Fin 100)), (1, Timeout (Fin 50))]"
  proof -
    from timerExpired_reschedules [OF cm em nm] obtain c d where
      h: "lastCallTime ?m = Some c"
        "scheduled (snd (timerExpired ?m 100)) = scheduled ?m @ [(nextHandle ?m, Timeout d)]"
        "\<forall>i j. maxing ?m \<and> wait ?m = Fin (of_int i) \<and> maxWait ?m = Some (Fin (of_int j)) \<and>
           \<bar>i - (100 - c)\<bar> \<le> 2 ^ 53 \<and> \<bar>j - (100 - lastInvokeTime ?m)\<bar> \<le> 2 ^ 53 \<longrightarrow>
           d = Fin (of_int (min (i - (100 - c)) (j - (100 - lastInvokeTime ?m))))"
      by blast
    have c: "c = 90" using h(1) vm by simp
    have "d = Fin 50" using h(3) [rule_format, of 100 150] vm c by simp
    then show ?thesis using h(2) vm by simp
  qed
  moreover
  have "scheduled (snd (timerExpired ?n 100)) = [(0, Timeout (Fin 100)), (1, Timeout (Fin 40))]"
  proof -
    from timerExpired_reschedules [OF cm en nn] obtain c d where
      h: "lastCallTime ?n = Some c"
        "scheduled (snd (timerExpired ?n 100)) = scheduled ?n @ [(nextHandle ?n, Timeout d)]"
        "\<forall>i j. maxing ?n \<and> wait ?n = Fin (of_int i) \<and> maxWait ?n = Some (Fin (of_int j)) \<and>
           \<bar>i - (100 - c)\<bar> \<le> 2 ^ 53 \<and> \<bar>j - (100 - lastInvokeTime ?n)\<bar> \<le> 2 ^ 53 \<longrightarrow>
           d = Fin (of_int (min (i - (100 - c)) (j - (100 - lastInvokeTime ?n))))"
      by blast
    have c: "c = 40" using h(1) vn by simp
    have "d = Fin 40" using h(3) [rule_format, of 100 150] vn c by simp
    then show ?thesis using h(2) vn by simp
  qed
  moreover
  have "\<not> shouldInvoke tie_wait_called 1 \<and>
      scheduled (snd (timerExpired tie_wait_called 1)) =
        [(0, Timeout (Fin 9007199254740994)), (1, Timeout (Fin 9007199254740992))]"
  proof -
    let ?w = "projr (debounce False five_only (Some sum_target)
        (Number (Fin 9007199254740994)) NotObject) :: (nat, string) closure"
    have cw: "debounce False five_only (Some sum_target)
        (Number (Fin 9007199254740994)) NotObject = Inr ?w"
      by (simp add: debounce_def num_or_zero_def Let_def)
    have ew: "evolves ?w tie_wait_called"
      unfolding tie_wait_called_def by (intro evolves.intros)
    have vw: "\<not> shouldInvoke tie_wait_called 1 \<and> lastCallTime tie_wait_called = Some 0 \<and>
        \<not> maxing tie_wait_called \<and> wait tie_wait_called = Fin 9007199254740994 \<and>
        scheduled tie_wait_called = [(0, Timeout (Fin 9007199254740994))] \<and>
        nextHandle tie_wait_called = 1"
      by (simp add: run_defs tie_wait_called_def)
    then have nw: "\<not> shouldInvoke tie_wait_called 1" by simp
    from timerExpired_reschedules [OF cw ew nw] obtain c d where
      h: "lastCallTime tie_wait_called = Some c"
        "scheduled (snd (timerExpired tie_wait_called 1)) =
           scheduled tie_wait_called @ [(nextHandle tie_wait_called, Timeout d)]"
        "\<forall>x. \<not> maxing tie_wait_called \<and> wait tie_wait_called = Fin x \<longrightarrow>
           d = round_double (x - real_of_int (1 - c))"
      by blast
    have c: "c = 0" using h(1) vw by simp
    have "d = round_double (9007199254740994 - real_of_int (1 - 0))"
      using h(3) [rule_format, of 9007199254740994] vw c by simp
    then have "d = Fin 9007199254740992" by (simp add: round_defs Let_def)
    then show ?thesis using h(2) vw by simp
  qed
  ultimately show ?thesis using np nm nn by simp
qed

text \<open>
  The claim as the spec words it fails. With \<^verbatim>\<open>debounce(sum, 1e17)\<close>, a call
  at time 0 and a timer callback at time 1, \<open>shouldInvoke\<close> is false and the
  exact value of \<open>wait - (t - lastCallTime)\<close> is \<open>10\<^sup>1\<^sup>7 - 1\<close>; this is not a
  double, and the timer is rescheduled for the double next to it, \<open>10\<^sup>1\<^sup>7\<close>.
\<close>

theorem timerExpired_delay_is_rounded:
  "\<not> shouldInvoke long_wait_called 1 \<and>
   \<not> maxing long_wait_called \<and>
   lastCallTime long_wait_called = Some 0 \<and>
   wait long_wait_called = Fin 100000000000000000 \<and>
   scheduled (snd (timerExpired long_wait_called 1)) =
     [(0, Timeout (Fin 100000000000000000)), (1, Timeout (Fin 100000000000000000))] \<and>
   (100000000000000000 :: real) - real_of_int (1 - 0) \<noteq> 100000000000000000"
  by (simp add: run_defs long_wait_called_def round_defs)

section \<open>A single trigger in a cycle\<close>

lemma timerExpiries_unset:
  "lastArgs s = None \<Longrightarrow> invoked (timerExpiries s ts) = invoked s"
proof (induction ts arbitrary: s)
  case Nil
  show ?case by simp
next
  case (Cons t ts)
  have "lastArgs (snd (timerExpired s t)) = None"
    using Cons.prems by (simp add: timerExpired_unset)
  then have "invoked (timerExpiries (snd (timerExpired s t)) ts) =
      invoked (snd (timerExpired s t))"
    by (rule Cons.IH)
  then show ?case using Cons.prems by (simp add: timerExpired_unset)
qed

lemma debounced_leading_edge:
  assumes "leading s" and "timerId s = None" and "shouldInvoke s t"
  shows "\<exists>x. debounced s t this args = invokeFunc x t \<and> func x = func s \<and>
           lastArgs x = Some args \<and> lastThis x = this \<and> invoked x = invoked s \<and>
           timerId x = Some (nextHandle s)"
proof -
  let ?s1 = "s\<lparr>lastArgs := Some args, lastThis := this, lastCallTime := Some t,
      lastInvokeTime := t\<rparr>"
  let ?p = "startTimer ?s1 (wait s)"
  let ?x = "(snd ?p)\<lparr>timerId := Some (fst ?p)\<rparr>"
  have "leading ?x"
    using assms(1) startTimer_policy [of ?s1 "wait s"] by (simp add: policy_def)
  then have "debounced s t this args = invokeFunc ?x t"
    using assms(2) assms(3) by (simp add: debounced_def leadingEdge_def Let_def split_beta)
  moreover have "func ?x = func s \<and> lastArgs ?x = Some args \<and> lastThis ?x = this \<and>
      invoked ?x = invoked s \<and> timerId ?x = Some (nextHandle s)"
    using assms(2) by (simp add: host_defs)
  ultimately show ?thesis by blast
qed

lemma debounced_no_edge:
  assumes "timerId s = None" and "\<not> shouldInvoke s t"
  shows "fst (debounced s t this args) = Inr (result s) \<and>
         invoked (snd (debounced s t this args)) = invoked s \<and>
         timerId (snd (debounced s t this args)) = Some (nextHandle s) \<and>
         lastArgs (snd (debounced s t this args)) = Some args \<and>
         lastThis (snd (debounced s t this args)) = this"
  using assms by (simp add: debounced_def Let_def split_beta host_defs)

text \<open>
  Claim C3, as the code has it. When \<open>leading\<close> is true and a trigger starts a
  cycle at the leading edge (no timer is pending and \<open>shouldInvoke\<close> holds at the
  time of the trigger), the trigger executes the target once, with its own receiver
  and arguments, and leaves a timer pending and \<open>lastArgs\<close> unset; if no other
  trigger follows, no timer callback, at whatever times the host runs it, executes
  the target again. A trigger that arrives with no timer pending while
  \<open>shouldInvoke\<close> is false gets no leading execution, whatever \<open>leading\<close> is:
  it returns the stored result, starts a timer and leaves its receiver and
  arguments queued.
\<close>

theorem leading_single_trigger:
  "(leading s \<and> \<not> pending s \<and> shouldInvoke s t \<longrightarrow>
      fst (debounced s t this args) = func s this args \<and>
      invoked (snd (debounced s t this args)) = invoked s @ [(t, this, args)] \<and>
      pending (snd (debounced s t this args)) \<and>
      lastArgs (snd (debounced s t this args)) = None \<and>
      invoked (timerExpiries (snd (debounced s t this args)) ts) =
        invoked s @ [(t, this, args)]) \<and>
   (\<not> pending s \<and> \<not> shouldInvoke s t \<longrightarrow>
      fst (debounced s t this args) = Inr (result s) \<and>
      invoked (snd (debounced s t this args)) = invoked s \<and>
      pending (snd (debounced s t this args)) \<and>
      lastArgs (snd (debounced s t this args)) = Some args \<and>
      lastThis (snd (debounced s t this args)) = this)"
proof (intro conjI impI)
  assume a: "leading s \<and> \<not> pending s \<and> shouldInvoke s t"
  then have idle: "timerId s = None" by (simp add: pending_def)
  obtain x where x: "debounced s t this args = invokeFunc x t" "func x = func s"
      "lastArgs x = Some args" "lastThis x = this" "invoked x = invoked s"
      "timerId x = Some (nextHandle s)"
    using a debounced_leading_edge [OF _ idle, of t this args] by blast
  show un: "lastArgs (snd (debounced s t this args)) = None"
    by (simp add: x(1) invokeFunc_cleared)
  show inv: "invoked (snd (debounced s t this args)) = invoked s @ [(t, this, args)]"
    by (simp add: x invokeFunc_invoked)
  show "fst (debounced s t this args) = func s this args"
    by (simp add: x invokeFunc_fst)
  show "pending (snd (debounced s t this args))"
    by (simp add: pending_def x invokeFunc_timer)
  show "invoked (timerExpiries (snd (debounced s t this args)) ts) =
      invoked s @ [(t, this, args)]"
    using timerExpiries_unset [OF un, of ts] inv by simp
next
  assume a: "\<not> pending s \<and> \<not> shouldInvoke s t"
  then have idle: "timerId s = None" and n: "\<not> shouldInvoke s t"
    by (simp_all add: pending_def)
  note d = debounced_no_edge [OF idle n, of this args]
  show "fst (debounced s t this args) = Inr (result s)" using d by simp
  show "invoked (snd (debounced s t this args)) = invoked s" using d by simp
  show "pending (snd (debounced s t this args))" using d by (simp add: pending_def)
  show "lastArgs (snd (debounced s t this args)) = Some args" using d by simp
  show "lastThis (snd (debounced s t this args)) = this" using d by simp
qed

theorem leading_single_trigger_witness:
  "fst (debounced leading_100 0 None [1]) = Inr (Some 1) \<and>
   invoked (snd (debounced leading_100 0 None [1])) = [(0, None, [1])] \<and>
   invoked (timerExpiries (snd (debounced leading_100 0 None [1])) [50, 100]) =
     [(0, None, [1])] \<and>
   \<not> shouldInvoke leading_100_flushed 30 \<and>
   fst (debounced leading_100_flushed 30 (Some 4) [3]) = Inr (Some 1) \<and>
   invoked (snd (debounced leading_100_flushed 30 (Some 4) [3])) = [(0, None, [1])] \<and>
   lastArgs (snd (debounced leading_100_flushed 30 (Some 4) [3])) = Some [3]"
proof -
  have v: "leading leading_100 \<and> \<not> pending leading_100 \<and> shouldInvoke leading_100 0 \<and>
      func leading_100 = sum_target \<and> invoked leading_100 = []"
    by (simp add: run_defs)
  have f: "\<not> pending leading_100_flushed \<and> \<not> shouldInvoke leading_100_flushed 30 \<and>
      result leading_100_flushed = Some 1 \<and> invoked leading_100_flushed = [(0, None, [1])]"
    by (simp add: run_defs)
  have "fst (debounced leading_100 0 None [1]) = Inr (Some 1) \<and>
      invoked (snd (debounced leading_100 0 None [1])) = [(0, None, [1])] \<and>
      invoked (timerExpiries (snd (debounced leading_100 0 None [1])) [50, 100]) =
        [(0, None, [1])]"
    using v leading_single_trigger [of leading_100 0 None "[1]" "[50, 100]", THEN conjunct1]
    by (simp add: sum_target_def)
  moreover
  have "fst (debounced leading_100_flushed 30 (Some 4) [3]) = Inr (Some 1) \<and>
      invoked (snd (debounced leading_100_flushed 30 (Some 4) [3])) = [(0, None, [1])] \<and>
      lastArgs (snd (debounced leading_100_flushed 30 (Some 4) [3])) = Some [3]"
    using f leading_single_trigger [of leading_100_flushed 30 "Some 4" "[3]" "[]",
        THEN conjunct2]
    by simp
  ultimately show ?thesis using f by simp
qed

text \<open>
  The claim as the spec words it fails. After a call at time 0 and a flush at time
  10, \<^verbatim>\<open>debounce(sum, 100, {leading: true})\<close> has no timer pending. A lone
  trigger at time 20 then starts a timer without executing the target, because
  \<open>shouldInvoke\<close> is false so soon after the last call; the timer callback at time
  120 is what executes the target, with the arguments of that trigger.
\<close>

theorem lone_trigger_runs_at_trailing_edge:
  "leading leading_100_flushed \<and> \<not> pending leading_100_flushed \<and>
   invoked leading_100_flushed = [(0, None, [1])] \<and>
   pending (snd (debounced leading_100_flushed 20 None [2])) \<and>
   invoked (snd (debounced leading_100_flushed 20 None [2])) = [(0, None, [1])] \<and>
   invoked (snd (timerExpired (snd (debounced leading_100_flushed 20 None [2])) 120)) =
     [(0, None, [1]), (120, None, [2])] \<and>
   \<not> pending (snd (timerExpired (snd (debounced leading_100_flushed 20 None [2])) 120))"
  by (simp add: run_defs)

end
